theory Spec2Isabelle
  imports Main
begin

section \<open>StrepHit feature extraction: \<open>strephit/classification/feature_extractors.py\<close>\<close>

text \<open>
  A shallow embedding of the class \<open>FeatureExtractor\<close>. The object is a record that
  every method takes and returns; every exception the Python can raise is a value of
  \<open>error\<close>. The part-of-speech tagger (\<open>strephit.commons.pos_tag.TTPosTagger\<close>) and
  the vectorizer (\<open>sklearn.feature_extraction.DictVectorizer\<close>) are used by the class but
  are not part of it: they are parameters of the model.
\<close>

subsection \<open>Strings: \<open>unicode.lower\<close> and the format \<open>'%+d'\<close>\<close>

text \<open>
  \<open>lower\<close> maps the letters \<open>A\<close> to \<open>Z\<close> to \<open>a\<close> to \<open>z\<close> and leaves every other
  character as it is (the ASCII part of Python's \<open>unicode.lower\<close>).
\<close>

definition lower_char :: "char \<Rightarrow> char" where
  "lower_char c =
     (case map_of (zip ''ABCDEFGHIJKLMNOPQRSTUVWXYZ'' ''abcdefghijklmnopqrstuvwxyz'') c of
        None \<Rightarrow> c
      | Some l \<Rightarrow> l)"

definition lower :: "string \<Rightarrow> string" where
  "lower s = map lower_char s"

definition digit_char :: "nat \<Rightarrow> char" where
  "digit_char d = ''0123456789'' ! d"

text \<open>The decimal digits of a natural number, most significant first.\<close>

fun digits :: "nat \<Rightarrow> string" where
  "digits n = (if n < 10 then [digit_char n] else digits (n div 10) @ [digit_char (n mod 10)])"

declare digits.simps [simp del]

text \<open>\<open>'%+d' % rel\<close>: the sign, always written, then the decimal digits.\<close>

definition fmt_signed :: "int \<Rightarrow> string" where
  "fmt_signed rel = (if 0 \<le> rel then CHR ''+'' # digits (nat rel) else CHR ''-'' # digits (nat (- rel)))"

text \<open>\<open>'TERM%+d' % rel\<close>, \<open>'POS%+d' % rel\<close>, \<open>'LEMMA%+d' % rel\<close>, \<open>'GAZ%+d' % rel\<close>.\<close>

definition fmt_feature :: "string \<Rightarrow> int \<Rightarrow> string" where
  "fmt_feature kind rel = kind @ fmt_signed rel"

subsection \<open>Data\<close>

datatype error = ValueError | UnboundLocalError | KeyError

text \<open>
  A token of \<open>tagged\<close> is a sequence of three elements (surface form, part-of-speech
  tag, lemma) as the tagger returns it, or of four once an FE has been attached to it.
  \<open>fe_label = None\<close> is the sequence of length three.
\<close>

record token =
  surface :: string
  pos_tag :: string
  lemma_form :: string
  fe_label :: "string option"

text \<open>The two methods of the tagger that the extractor calls.\<close>

record tagger =
  tag_one :: "string \<Rightarrow> (string \<times> string \<times> string) list"
  tokenize :: "string \<Rightarrow> string list"

type_synonym sample = "string \<rightharpoonup> string"

record extractor =
  language :: string
  the_tagger :: tagger
  window_width :: int
  collapse_fes :: bool
  unk_feature :: string
  samples :: "(sample \<times> string) list"
  vocabulary :: "string set"
  labels :: "string set"

subsection \<open>\<open>__init__\<close> and \<open>start\<close>\<close>

definition start :: "extractor \<Rightarrow> extractor" where
  "start self = self\<lparr>samples := [], vocabulary := {}, labels := {}\<rparr>"

text \<open>
  \<open>TTPosTagger\<close> is the constructor of the tagger, a parameter. The fields that
  \<open>start\<close> assigns have no value before it runs; the record is built with the values
  \<open>start\<close> gives them.
\<close>

definition init :: "(string \<Rightarrow> tagger) \<Rightarrow> string \<Rightarrow> int \<Rightarrow> bool \<Rightarrow> extractor" where
  "init TTPosTagger lang width collapse =
     start \<lparr>language = lang, the_tagger = TTPosTagger lang, window_width = width,
            collapse_fes = collapse, unk_feature = ''UNK'',
            samples = [], vocabulary = {}, labels = {}\<rparr>"

subsection \<open>\<open>sentence_to_tokens\<close>\<close>

definition raw_token :: "string \<times> string \<times> string \<Rightarrow> token" where
  "raw_token t = (case t of (w, p, l) \<Rightarrow> \<lparr>surface = w, pos_tag = p, lemma_form = l, fe_label = None\<rparr>)"

text \<open>
  The scan \<open>while i < len(tagged)\<close>, from the values of \<open>i\<close> and \<open>j\<close> at the head of
  the loop: \<open>Some i\<close> is \<open>found = True\<close> with the \<open>i\<close> of the \<open>break\<close>, \<open>None\<close> is
  \<open>found = False\<close>.
\<close>

function find_fe :: "string list \<Rightarrow> token list \<Rightarrow> nat \<Rightarrow> nat \<Rightarrow> nat option" where
  "find_fe fe_tokens tagged i j =
     (if i < length tagged then
        (if lower (fe_tokens ! j) = lower (surface (tagged ! i)) then
           (if j + 1 = length fe_tokens then Some i
            else find_fe fe_tokens tagged (i + 1) (j + 1))
         else find_fe fe_tokens tagged (i + 1) 0)
      else None)"
  by pat_completeness auto
termination
  by (relation "measure (\<lambda>(fe_tokens, tagged, i, j). length tagged - i)") auto

declare find_fe.simps [simp del]

text \<open>
  The loop of the split mode, over the indices still to visit. \<open>token, pos, _ = tagged[i]\<close>
  unpacks exactly three elements: on a token that already has four it raises
  \<open>ValueError\<close>.
\<close>

fun split_span :: "string \<Rightarrow> nat list \<Rightarrow> token list \<Rightarrow> error + token list" where
  "split_span fe [] tagged = Inr tagged"
| "split_span fe (i # is) tagged =
     (case fe_label (tagged ! i) of
        Some _ \<Rightarrow> Inl ValueError
      | None \<Rightarrow>
          split_span fe is
            (tagged[i := \<lparr>surface = surface (tagged ! i), pos_tag = pos_tag (tagged ! i),
                          lemma_form = ''ENT'', fe_label = Some fe\<rparr>]))"

text \<open>The body of \<open>for fe, chunk in fes.iteritems()\<close>.\<close>

definition apply_fe :: "tagger \<Rightarrow> bool \<Rightarrow> string \<times> string option \<Rightarrow> token list \<Rightarrow> error + token list" where
  "apply_fe tg collapse entry tagged =
     (case snd entry of
        None \<Rightarrow> Inr tagged
      | Some chunk \<Rightarrow>
          (let fe = fst entry; fe_tokens = tokenize tg chunk in
           if fe_tokens = [] then Inr tagged
           else
             (case find_fe fe_tokens tagged 0 0 of
                None \<Rightarrow> Inr tagged
              | Some i \<Rightarrow>
                  (let position = i + 1 - length fe_tokens;
                       pos = (if length fe_tokens > 1 then ''ENT'' else pos_tag (tagged ! position))
                   in
                   if collapse then
                     Inr (take position tagged
                          @ [\<lparr>surface = chunk, pos_tag = pos, lemma_form = chunk, fe_label = Some fe\<rparr>]
                          @ drop (position + length fe_tokens) tagged)
                   else split_span fe [position ..< position + length fe_tokens] tagged))))"

fun apply_fes :: "tagger \<Rightarrow> bool \<Rightarrow> (string \<times> string option) list \<Rightarrow> token list \<Rightarrow> error + token list" where
  "apply_fes tg collapse [] tagged = Inr tagged"
| "apply_fes tg collapse (entry # fes) tagged =
     (case apply_fe tg collapse entry tagged of
        Inl e \<Rightarrow> Inl e
      | Inr tagged' \<Rightarrow> apply_fes tg collapse fes tagged')"

text \<open>
  \<open>fes\<close> is the dictionary as \<open>fes.iteritems()\<close> yields it: the list of its
  \<open>(fe, chunk)\<close> pairs in iteration order, \<open>None\<close> for a chunk that is \<open>None\<close>.
\<close>

definition sentence_to_tokens :: "extractor \<Rightarrow> string \<Rightarrow> (string \<times> string option) list \<Rightarrow> error + token list" where
  "sentence_to_tokens self sentence fes =
     apply_fes (the_tagger self) (collapse_fes self) fes
       (map raw_token (tag_one (the_tagger self) sentence))"

subsection \<open>\<open>process_sentence\<close>\<close>

text \<open>
  The closure \<open>add_feature_to\<close>: it writes into \<open>sample\<close> and into \<open>self.vocabulary\<close>,
  so it takes and returns both.
\<close>

definition add_feature_to :: "bool \<Rightarrow> string \<Rightarrow> string \<Rightarrow> sample \<times> extractor \<Rightarrow> sample \<times> extractor" where
  "add_feature_to add_unknown feature_name feature_value st =
     (case st of (sample, self) \<Rightarrow>
        if add_unknown \<or> feature_value \<in> vocabulary self then
          (sample(feature_name \<mapsto> feature_value),
           self\<lparr>vocabulary := insert feature_value (vocabulary self)\<rparr>)
        else (sample(feature_name \<mapsto> unk_feature self), self))"

text \<open>\<open>for feat in gazetteer.get(tagged[i][0], []): sample['GAZ%+d' % rel] = feat\<close>.\<close>

definition add_gazetteer :: "(string \<rightharpoonup> string list) \<Rightarrow> string \<Rightarrow> int \<Rightarrow> sample \<Rightarrow> sample" where
  "add_gazetteer gazetteer term rel sample =
     fold (\<lambda>feat smp. smp(fmt_feature ''GAZ'' rel \<mapsto> feat))
       (case gazetteer term of None \<Rightarrow> [] | Some feats \<Rightarrow> feats) sample"

text \<open>The body of the inner loop, at window index \<open>i\<close> of the sample of \<open>position\<close>.\<close>

definition window_step ::
  "bool \<Rightarrow> (string \<rightharpoonup> string list) \<Rightarrow> token list \<Rightarrow> nat \<Rightarrow> nat \<Rightarrow> sample \<times> extractor \<Rightarrow> sample \<times> extractor" where
  "window_step add_unknown gazetteer tagged position i st =
     (let rel = int i - int position;
          st1 = add_feature_to add_unknown (fmt_feature ''TERM'' rel) (surface (tagged ! i)) st;
          st2 = add_feature_to add_unknown (fmt_feature ''POS'' rel) (pos_tag (tagged ! i)) st1;
          st3 = add_feature_to add_unknown (fmt_feature ''LEMMA'' rel) (lemma_form (tagged ! i)) st2
      in (add_gazetteer gazetteer (surface (tagged ! i)) rel (fst st3), snd st3))"

text \<open>
  \<open>xrange(max(position - window_width, 0), min(position + window_width + 1, len(tagged)))\<close>.
  The lower bound is never negative, so the indices are natural numbers; the range is
  empty when the upper bound is not above the lower one.
\<close>

definition window_range :: "int \<Rightarrow> nat \<Rightarrow> nat \<Rightarrow> nat list" where
  "window_range width position n =
     [nat (max (int position - width) 0) ..< nat (min (int position + width + 1) (int n))]"

definition label_of :: "token \<Rightarrow> string" where
  "label_of t = (case fe_label t of None \<Rightarrow> ''O'' | Some fe \<Rightarrow> fe)"

text \<open>
  The body of the outer loop. The loop variable \<open>i\<close> of the inner loop is read after
  it: \<open>last_i\<close> is its value before the inner loop runs (\<open>None\<close>: never assigned), and
  reading it unassigned raises \<open>UnboundLocalError\<close>.
\<close>

definition process_position ::
  "bool \<Rightarrow> (string \<rightharpoonup> string list) \<Rightarrow> token list \<Rightarrow> nat \<Rightarrow> nat option \<times> extractor
     \<Rightarrow> error + (nat option \<times> extractor)" where
  "process_position add_unknown gazetteer tagged position st =
     (case st of (last_i, self) \<Rightarrow>
        (let sample0 = [''unk'' \<mapsto> unk_feature self];
             rng = window_range (window_width self) position (length tagged);
             st' = fold (window_step add_unknown gazetteer tagged position) rng (sample0, self);
             i' = (if rng = [] then last_i else Some (last rng))
         in case i' of
              None \<Rightarrow> Inl UnboundLocalError
            | Some i \<Rightarrow>
                (let label = label_of (tagged ! i); self' = snd st' in
                 Inr (Some i,
                      self'\<lparr>labels := insert label (labels self'),
                             samples := samples self' @ [(fst st', label)]\<rparr>))))"

text \<open>
  The outer loop, over the positions still to visit. An exception ends the call: the
  model returns the error and no extractor. The Python object would keep what the loop
  wrote before the exception, but the loop writes nothing before it can raise: it raises
  only while \<open>i\<close> is unassigned, that is at the first position, before any call of
  \<open>add_feature_to\<close> (lemma \<open>process_positions_after_first\<close> below). \<open>tagged\<close> is a
  local variable, so an exception in \<open>sentence_to_tokens\<close> leaves the object as it was.
\<close>

fun process_positions ::
  "bool \<Rightarrow> (string \<rightharpoonup> string list) \<Rightarrow> token list \<Rightarrow> nat list \<Rightarrow> nat option \<times> extractor
     \<Rightarrow> error + (nat option \<times> extractor)" where
  "process_positions add_unknown gazetteer tagged [] st = Inr st"
| "process_positions add_unknown gazetteer tagged (p # ps) st =
     (case process_position add_unknown gazetteer tagged p st of
        Inl e \<Rightarrow> Inl e
      | Inr st' \<Rightarrow> process_positions add_unknown gazetteer tagged ps st')"

definition process_sentence ::
  "extractor \<Rightarrow> string \<Rightarrow> (string \<times> string option) list \<Rightarrow> bool \<Rightarrow> (string \<rightharpoonup> string list)
     \<Rightarrow> error + extractor" where
  "process_sentence self sentence fes add_unknown gazetteer =
     (case sentence_to_tokens self sentence fes of
        Inl e \<Rightarrow> Inl e
      | Inr tagged \<Rightarrow>
          (case process_positions add_unknown gazetteer tagged [0 ..< length tagged] (None, self) of
             Inl e \<Rightarrow> Inl e
           | Inr st \<Rightarrow> Inr (snd st)))"

subsection \<open>\<open>get_features\<close>\<close>

text \<open>
  \<open>fit_transform\<close> is \<open>DictVectorizer().fit_transform\<close> and \<open>iter_set\<close> the order in
  which Python iterates over a set: both are parameters. \<open>zip(*self.samples)\<close> of an empty
  list is the empty list, and unpacking it into \<open>samples, labels\<close> raises \<open>ValueError\<close>;
  \<open>label_index[label]\<close> raises \<open>KeyError\<close> for a label that is not in \<open>self.labels\<close>.
\<close>

definition get_features ::
  "(sample list \<Rightarrow> 'm) \<Rightarrow> (string set \<Rightarrow> string list) \<Rightarrow> extractor \<Rightarrow> error + ('m \<times> nat list)" where
  "get_features fit_transform iter_set self =
     (case samples self of
        [] \<Rightarrow> Inl ValueError
      | _ # _ \<Rightarrow>
          (let smps = map fst (samples self);
               lbls = map snd (samples self);
               features = fit_transform smps;
               order = iter_set (labels self);
               label_index = map_of (rev (zip order [0 ..< length order]))
           in case those (map label_index lbls) of
                None \<Rightarrow> Inl KeyError
              | Some ls \<Rightarrow> Inr (features, ls)))"

subsection \<open>\<open>__getstate__\<close> and \<open>__setstate__\<close>\<close>

type_synonym pickled =
  "string \<times> string \<times> int \<times> (sample \<times> string) list \<times> string set \<times> string set \<times> bool"

definition getstate :: "extractor \<Rightarrow> pickled" where
  "getstate self =
     (language self, unk_feature self, window_width self,
      samples self, vocabulary self, labels self, collapse_fes self)"

text \<open>\<open>__setstate__\<close> calls \<open>__init__(language, window_width)\<close>, where \<open>collapse_fes\<close>
  takes its default \<open>True\<close>, and then assigns five fields.\<close>

definition setstate :: "(string \<Rightarrow> tagger) \<Rightarrow> pickled \<Rightarrow> extractor" where
  "setstate TTPosTagger state =
     (case state of (lang, unk, width, smps, vocab, lbls, collapse) \<Rightarrow>
        (init TTPosTagger lang width True)
          \<lparr>samples := smps, vocabulary := vocab, unk_feature := unk,
           collapse_fes := collapse, labels := lbls\<rparr>)"

subsection \<open>Vocabulary of the properties and a stand-in tagger\<close>

text \<open>
  \<open>occurs_at fe_tokens tagged k\<close>: the tokens of a chunk stand in \<open>tagged\<close> from index
  \<open>k\<close> on, one after the other, compared as the scan compares them (lower case of the
  surface forms).
\<close>

definition occurs_at :: "string list \<Rightarrow> token list \<Rightarrow> nat \<Rightarrow> bool" where
  "occurs_at fe_tokens tagged k =
     (k + length fe_tokens \<le> length tagged \<and>
      map lower fe_tokens = map (\<lambda>t. lower (surface t)) (take (length fe_tokens) (drop k tagged)))"

text \<open>The three values of a token that \<open>add_feature_to\<close> is called with.\<close>

definition token_values :: "token \<Rightarrow> string set" where
  "token_values t = {surface t, pos_tag t, lemma_form t}"

text \<open>
  \<open>frozen_ok V U smp\<close>: every feature of the sample \<open>smp\<close> whose name is not a \<open>GAZ\<close>
  name has a value in \<open>V\<close> or the value \<open>U\<close>.
\<close>

definition frozen_ok :: "string set \<Rightarrow> string \<Rightarrow> sample \<Rightarrow> bool" where
  "frozen_ok V U smp =
     (\<forall>name v. smp name = Some v \<longrightarrow> (\<exists>rel. name = fmt_feature ''GAZ'' rel) \<or> v \<in> V \<or> v = U)"

text \<open>
  The tagger is a parameter. Concrete inputs use \<open>stub_tagger\<close>, which splits a text
  at blanks, tags \<open>the\<close> as \<open>DT\<close>, \<open>killed\<close> as \<open>VBD\<close> and every other word as \<open>NN\<close>, and
  takes the lower-case word as its lemma.
\<close>

fun split_ws :: "string \<Rightarrow> string \<Rightarrow> string list" where
  "split_ws cur [] = (if cur = [] then [] else [rev cur])"
| "split_ws cur (c # cs) =
     (if c = CHR '' '' then (if cur = [] then split_ws [] cs else rev cur # split_ws [] cs)
      else split_ws (c # cur) cs)"

definition stub_tagger :: tagger where
  "stub_tagger =
     \<lparr>tag_one = (\<lambda>s. map (\<lambda>w. (w, (case map_of [(''the'', ''DT''), (''killed'', ''VBD'')] (lower w) of
                                        None \<Rightarrow> ''NN'' | Some p \<Rightarrow> p), lower w)) (split_ws [] s)),
      tokenize = split_ws []\<rparr>"

section \<open>Properties\<close>

subsection \<open>Saving and restoring the extractor\<close>

lemma getstate_setstate:
  "getstate (setstate TTPosTagger state) = state"
  by (cases state) (simp add: getstate_def setstate_def init_def start_def)

text \<open>
  Claim C9. Restoring an extractor from its saved state gives an extractor whose seven
  persisted fields (language, unknown sentinel, window width, accumulated samples,
  vocabulary, label set, collapse flag) are those of the original; its tagger is built
  again from the language.
\<close>

theorem setstate_getstate_roundtrip:
  "language (setstate TTPosTagger (getstate self)) = language self \<and>
   unk_feature (setstate TTPosTagger (getstate self)) = unk_feature self \<and>
   window_width (setstate TTPosTagger (getstate self)) = window_width self \<and>
   samples (setstate TTPosTagger (getstate self)) = samples self \<and>
   vocabulary (setstate TTPosTagger (getstate self)) = vocabulary self \<and>
   labels (setstate TTPosTagger (getstate self)) = labels self \<and>
   collapse_fes (setstate TTPosTagger (getstate self)) = collapse_fes self \<and>
   the_tagger (setstate TTPosTagger (getstate self)) = TTPosTagger (language self)"
  by (simp add: getstate_def setstate_def init_def start_def)

subsection \<open>The matrix of an empty accumulator\<close>

text \<open>
  Claim C8. With no accumulated sample \<open>get_features\<close> raises an error (the
  \<open>ValueError\<close> of unpacking the empty \<open>zip\<close>), whatever the vectorizer and the
  iteration order of the label set; it returns no matrix.
\<close>

theorem get_features_empty_fails:
  assumes "samples self = []"
  shows "get_features fit_transform iter_set self = Inl ValueError"
  using assms by (simp add: get_features_def)

theorem get_features_empty_fails_witness:
  "samples (init (\<lambda>lang. \<lparr>tag_one = (\<lambda>s. []), tokenize = (\<lambda>s. [])\<rparr>) ''en'' 2 True) = [] \<and>
   get_features (\<lambda>smps. length smps) (\<lambda>S. []) (init (\<lambda>lang. \<lparr>tag_one = (\<lambda>s. []), tokenize = (\<lambda>s. [])\<rparr>) ''en'' 2 True)
     = Inl ValueError"
proof -
  have h: "samples (init (\<lambda>lang. \<lparr>tag_one = (\<lambda>s. []), tokenize = (\<lambda>s. [])\<rparr>) ''en'' 2 True) = []"
    by (simp add: init_def start_def)
  show ?thesis
    using h get_features_empty_fails [OF h, of "\<lambda>smps. length smps" "\<lambda>S. []"] by simp
qed

lemma get_features_ValueError_iff:
  "get_features fit_transform iter_set self = Inl ValueError \<longleftrightarrow> samples self = []"
  by (auto simp: get_features_def Let_def split: list.splits option.splits)

subsection \<open>Alignment: entries without a chunk\<close>

lemma apply_fe_skip:
  "(case snd entry of None \<Rightarrow> True | Some chunk \<Rightarrow> tokenize tg chunk = []) \<Longrightarrow>
   apply_fe tg collapse entry tagged = Inr tagged"
  by (simp add: apply_fe_def split: option.splits)

lemma apply_fes_skip:
  "\<forall>entry \<in> set fes. (case snd entry of None \<Rightarrow> True | Some chunk \<Rightarrow> tokenize tg chunk = []) \<Longrightarrow>
   apply_fes tg collapse fes tagged = Inr tagged"
  by (induction fes) (simp_all add: apply_fe_skip)

lemma stub_tagger_the_tagger:
  "the_tagger (init (\<lambda>lang. stub_tagger) lang0 width collapse) = stub_tagger"
  by (simp add: init_def start_def)

lemma stub_tokenize_empty: "tokenize stub_tagger '''' = []"
  by (simp add: stub_tagger_def)

lemma stub_tag_mayor:
  "tag_one stub_tagger ''the mayor'' = [(''the'', ''DT'', ''the''), (''mayor'', ''NN'', ''mayor'')]"
  by (simp add: stub_tagger_def lower_def lower_char_def)

text \<open>
  Claim C6. When every entry of the FE map is null or has a chunk that the tagger
  tokenizes to nothing (the empty map included), \<open>sentence_to_tokens\<close> returns the
  tagger's tokens: the same surface forms, tags and lemmas in the same order, and no
  token with an FE label.
\<close>

theorem align_without_chunks_is_raw:
  assumes "\<forall>entry \<in> set fes. (case snd entry of None \<Rightarrow> True
                                   | Some chunk \<Rightarrow> tokenize (the_tagger self) chunk = [])"
  shows "\<exists>tagged. sentence_to_tokens self sentence fes = Inr tagged \<and>
           map (\<lambda>t. (surface t, pos_tag t, lemma_form t)) tagged = tag_one (the_tagger self) sentence \<and>
           list_all (\<lambda>t. fe_label t = None) tagged"
proof -
  have "sentence_to_tokens self sentence fes = Inr (map raw_token (tag_one (the_tagger self) sentence))"
    using assms by (simp add: sentence_to_tokens_def apply_fes_skip)
  moreover have "map (\<lambda>t. (surface t, pos_tag t, lemma_form t)) (map raw_token xs) = xs" for xs
    by (induction xs) (auto simp: raw_token_def)
  moreover have "list_all (\<lambda>t. fe_label t = None) (map raw_token xs)" for xs :: "(string \<times> string \<times> string) list"
    by (induction xs) (auto simp: raw_token_def)
  ultimately show ?thesis by simp
qed

theorem align_without_chunks_is_raw_witness:
  "\<exists>tagged. sentence_to_tokens (init (\<lambda>lang. stub_tagger) ''en'' 2 True) ''the mayor''
               [(''Victim'', None), (''Place'', Some '''')] = Inr tagged \<and>
     map (\<lambda>t. (surface t, pos_tag t, lemma_form t)) tagged
       = [(''the'', ''DT'', ''the''), (''mayor'', ''NN'', ''mayor'')] \<and>
     list_all (\<lambda>t. fe_label t = None) tagged"
proof -
  have tg: "the_tagger (init (\<lambda>lang. stub_tagger) ''en'' 2 True) = stub_tagger"
    by (simp add: init_def start_def)
  have h: "\<forall>entry \<in> set [(''Victim'', None), (''Place'', Some '''')].
             (case snd entry of None \<Rightarrow> True
              | Some chunk \<Rightarrow> tokenize (the_tagger (init (\<lambda>lang. stub_tagger) ''en'' 2 True)) chunk = [])"
    by (simp add: tg stub_tokenize_empty)
  show ?thesis
    using align_without_chunks_is_raw [OF h, of "''the mayor''"] by (simp only: tg stub_tag_mayor)
qed

subsection \<open>Alignment: the scan\<close>

text \<open>
  When the scan stops with \<open>found\<close>, the chunk's tokens stand in the sentence in the
  \<open>len(fe_tokens)\<close> places that end at \<open>i\<close>. The invariant: the \<open>j\<close> tokens before \<open>i\<close>
  match the first \<open>j\<close> tokens of the chunk.
\<close>

lemma find_fe_sound:
  "find_fe fe_tokens tagged i j = Some r \<Longrightarrow> j < length fe_tokens \<Longrightarrow> j \<le> i \<Longrightarrow>
   (\<forall>k<j. lower (fe_tokens ! k) = lower (surface (tagged ! (i - j + k)))) \<Longrightarrow>
   r < length tagged \<and> length fe_tokens \<le> r + 1 \<and>
   (\<forall>k<length fe_tokens. lower (fe_tokens ! k) = lower (surface (tagged ! (r + 1 - length fe_tokens + k))))"
proof (induction fe_tokens tagged i j rule: find_fe.induct)
  case (1 fe_tokens tagged i j)
  show ?case
  proof (cases "i < length tagged")
    case False
    with "1.prems"(1) show ?thesis by (simp add: find_fe.simps)
  next
    case inb: True
    show ?thesis
    proof (cases "lower (fe_tokens ! j) = lower (surface (tagged ! i))")
      case neq: False
      from neq inb "1.prems"(1) have "find_fe fe_tokens tagged (i + 1) 0 = Some r"
        by (simp add: find_fe.simps)
      moreover from "1.prems"(2) have "0 < length fe_tokens" by (cases fe_tokens) simp_all
      ultimately show ?thesis using "1.IH"(2) [OF inb neq] by simp
    next
      case eq: True
      have ext: "\<forall>k<j + 1. lower (fe_tokens ! k) = lower (surface (tagged ! (i + 1 - (j + 1) + k)))"
      proof (intro allI impI)
        fix k assume "k < j + 1"
        then consider "k < j" | "k = j" by linarith
        then show "lower (fe_tokens ! k) = lower (surface (tagged ! (i + 1 - (j + 1) + k)))"
        proof cases
          case 1
          with "1.prems"(4) show ?thesis by simp
        next
          case 2
          with eq "1.prems"(3) show ?thesis by simp
        qed
      qed
      show ?thesis
      proof (cases "j + 1 = length fe_tokens")
        case last: True
        with inb eq "1.prems"(1) have "r = i" by (simp add: find_fe.simps)
        with inb last ext "1.prems"(3) show ?thesis by auto
      next
        case more: False
        with inb eq "1.prems"(1) have "find_fe fe_tokens tagged (i + 1) (j + 1) = Some r"
          by (simp add: find_fe.simps)
        moreover from more "1.prems"(2) have "j + 1 < length fe_tokens" by simp
        moreover from "1.prems"(3) have "j + 1 \<le> i + 1" by simp
        ultimately show ?thesis using "1.IH"(1) [OF inb eq more] ext by blast
      qed
    qed
  qed
qed

lemma find_fe_occurs:
  assumes "find_fe fe_tokens tagged 0 0 = Some i" and "fe_tokens \<noteq> []"
  shows "length fe_tokens \<le> i + 1 \<and> occurs_at fe_tokens tagged (i + 1 - length fe_tokens)"
proof -
  from assms(2) have pos: "0 < length fe_tokens" by (cases fe_tokens) simp_all
  from find_fe_sound [OF assms(1) pos] have
    r: "i < length tagged" "length fe_tokens \<le> i + 1"
    and m: "\<forall>k<length fe_tokens. lower (fe_tokens ! k) = lower (surface (tagged ! (i + 1 - length fe_tokens + k)))"
    by simp_all
  define k where "k = i + 1 - length fe_tokens"
  from r have fits: "k + length fe_tokens \<le> length tagged" by (simp add: k_def)
  have "map lower fe_tokens = map (\<lambda>t. lower (surface t)) (take (length fe_tokens) (drop k tagged))"
  proof (rule nth_equalityI)
    from fits show "length (map lower fe_tokens) =
        length (map (\<lambda>t. lower (surface t)) (take (length fe_tokens) (drop k tagged)))"
      by simp
  next
    fix n assume "n < length (map lower fe_tokens)"
    then have n: "n < length fe_tokens" by simp
    with fits m show "map lower fe_tokens ! n =
        map (\<lambda>t. lower (surface t)) (take (length fe_tokens) (drop k tagged)) ! n"
      by (simp add: k_def)
  qed
  with r fits show ?thesis by (simp add: occurs_at_def k_def)
qed






text \<open>A chunk of one token keeps the tag of the token it matches.\<close>

lemma collapse_single_token_keeps_tag:
  "apply_fe stub_tagger True (''Event'', Some ''KILLED'')
     (map raw_token (tag_one stub_tagger ''John Smith killed the mayor'')) =
   Inr [\<lparr>surface = ''John'', pos_tag = ''NN'', lemma_form = ''john'', fe_label = None\<rparr>,
        \<lparr>surface = ''Smith'', pos_tag = ''NN'', lemma_form = ''smith'', fe_label = None\<rparr>,
        \<lparr>surface = ''KILLED'', pos_tag = ''VBD'', lemma_form = ''KILLED'', fe_label = Some ''Event''\<rparr>,
        \<lparr>surface = ''the'', pos_tag = ''DT'', lemma_form = ''the'', fe_label = None\<rparr>,
        \<lparr>surface = ''mayor'', pos_tag = ''NN'', lemma_form = ''mayor'', fe_label = None\<rparr>]"
  by (simp add: apply_fe_def stub_tagger_def raw_token_def find_fe.simps lower_def lower_char_def)

subsubsection \<open>The scan is not a substring search\<close>

lemma stub_tag_new_york:
  "map raw_token (tag_one stub_tagger ''New New York'') =
     [\<lparr>surface = ''New'', pos_tag = ''NN'', lemma_form = ''new'', fe_label = None\<rparr>,
      \<lparr>surface = ''New'', pos_tag = ''NN'', lemma_form = ''new'', fe_label = None\<rparr>,
      \<lparr>surface = ''York'', pos_tag = ''NN'', lemma_form = ''york'', fe_label = None\<rparr>]"
  by (simp add: stub_tagger_def lower_def lower_char_def raw_token_def)

lemma stub_tokenize_new_york: "tokenize stub_tagger ''new york'' = [''new'', ''york'']"
  by (simp add: stub_tagger_def)

lemma new_york_occurs:
  "occurs_at (tokenize stub_tagger ''new york'') (map raw_token (tag_one stub_tagger ''New New York'')) 1"
  by (simp add: stub_tag_new_york stub_tokenize_new_york occurs_at_def lower_def lower_char_def)

lemma new_york_not_found:
  "find_fe (tokenize stub_tagger ''new york'') (map raw_token (tag_one stub_tagger ''New New York'')) 0 0 = None"
  by (simp add: stub_tag_new_york stub_tokenize_new_york find_fe.simps lower_def lower_char_def)

lemma new_york_dropped:
  "sentence_to_tokens (init (\<lambda>lang. stub_tagger) ''en'' 2 collapse) ''New New York''
     [(''Place'', Some ''new york'')] = Inr (map raw_token (tag_one stub_tagger ''New New York''))"
  using new_york_not_found
  by (simp add: sentence_to_tokens_def init_def start_def apply_fe_def Let_def
        stub_tokenize_new_york)

text \<open>
  Claim C3. After a mismatch in the middle of a match the scan resets \<open>j\<close> and moves to
  the next token without comparing the current one with the chunk's first token. So
  there is a sentence and a non-null chunk whose tokens stand in the sentence one after
  the other, for which the scan reports the chunk as not found and
  \<open>sentence_to_tokens\<close> returns the tokens without the FE: the chunk \<open>new york\<close> in
  \<open>New New York\<close>.
\<close>

theorem naive_scan_misses_chunk:
  "\<exists>self sentence fe chunk k.
     tokenize (the_tagger self) chunk \<noteq> [] \<and>
     occurs_at (tokenize (the_tagger self) chunk) (map raw_token (tag_one (the_tagger self) sentence)) k \<and>
     find_fe (tokenize (the_tagger self) chunk) (map raw_token (tag_one (the_tagger self) sentence)) 0 0 = None \<and>
     sentence_to_tokens self sentence [(fe, Some chunk)] =
       Inr (map raw_token (tag_one (the_tagger self) sentence))"
proof -
  let ?self = "init (\<lambda>lang. stub_tagger) ''en'' 2 True"
  have tg: "the_tagger ?self = stub_tagger" by (simp add: init_def start_def)
  have "tokenize (the_tagger ?self) ''new york'' \<noteq> []"
    by (simp add: tg stub_tokenize_new_york)
  moreover have "occurs_at (tokenize (the_tagger ?self) ''new york'')
                   (map raw_token (tag_one (the_tagger ?self) ''New New York'')) 1"
    by (simp only: tg new_york_occurs)
  moreover have "find_fe (tokenize (the_tagger ?self) ''new york'')
                   (map raw_token (tag_one (the_tagger ?self) ''New New York'')) 0 0 = None"
    by (simp only: tg new_york_not_found)
  moreover have "sentence_to_tokens ?self ''New New York'' [(''Place'', Some ''new york'')] =
                   Inr (map raw_token (tag_one (the_tagger ?self) ''New New York''))"
    by (simp only: tg new_york_dropped)
  ultimately show ?thesis by blast
qed

subsection \<open>Alignment: overlapping spans\<close>

lemma split_span_labelled:
  "i \<in> set is \<Longrightarrow> fe_label (tagged ! i) \<noteq> None \<Longrightarrow> distinct is \<Longrightarrow> split_span fe is tagged = Inl ValueError"
proof (induction "is" arbitrary: tagged)
  case Nil then show ?case by simp
next
  case (Cons a "is")
  show ?case
  proof (cases "fe_label (tagged ! a)")
    case (Some x) then show ?thesis by simp
  next
    case None
    with Cons.prems have "i \<in> set is" "a \<noteq> i" by auto
    with Cons None show ?thesis by (simp add: nth_list_update)
  qed
qed

text \<open>
  In split mode a match whose span holds a token that already has an FE raises
  \<open>ValueError\<close>, whatever the sentence and the chunk.
\<close>

lemma split_mode_labelled_span_raises:
  assumes "tokenize tg chunk \<noteq> []"
    and "find_fe (tokenize tg chunk) tagged 0 0 = Some i"
    and "i + 1 - length (tokenize tg chunk) \<le> k" and "k \<le> i"
    and "fe_label (tagged ! k) \<noteq> None"
  shows "apply_fe tg False (fe, Some chunk) tagged = Inl ValueError"
proof -
  let ?n = "length (tokenize tg chunk)"
  from find_fe_occurs [OF assms(2,1)] have "?n \<le> i + 1" by simp
  with assms(3,4) have "k \<in> set [i + 1 - ?n ..< i + 1 - ?n + ?n]" by auto
  then have "split_span fe [i + 1 - ?n ..< i + 1 - ?n + ?n] tagged = Inl ValueError"
    using assms(5) by (intro split_span_labelled) simp_all
  with assms(1,2) show ?thesis by (simp add: apply_fe_def Let_def)
qed

text \<open>
  Claim C4. In split mode a second chunk whose span shares a token with an earlier
  match does not overwrite the earlier label: the token already has four elements,
  \<open>token, pos, _ = tagged[i]\<close> raises \<open>ValueError\<close>, and \<open>sentence_to_tokens\<close> fails.
\<close>

theorem split_mode_overlap_raises:
  "sentence_to_tokens (init (\<lambda>lang. stub_tagger) ''en'' 2 False) ''the mayor''
     [(''Victim'', Some ''mayor''), (''Target'', Some ''the mayor'')] = Inl ValueError"
  by (simp add: sentence_to_tokens_def init_def start_def apply_fe_def stub_tagger_def
        lower_def lower_char_def raw_token_def find_fe.simps)

text \<open>In collapse mode the same input gives one token with the label of the later FE.\<close>

lemma collapse_mode_overlap_overwrites:
  "sentence_to_tokens (init (\<lambda>lang. stub_tagger) ''en'' 2 True) ''the mayor''
     [(''Victim'', Some ''mayor''), (''Target'', Some ''the mayor'')] =
   Inr [\<lparr>surface = ''the mayor'', pos_tag = ''ENT'', lemma_form = ''the mayor'',
         fe_label = Some ''Target''\<rparr>]"
  by (simp add: sentence_to_tokens_def init_def start_def apply_fe_def stub_tagger_def
        lower_def lower_char_def raw_token_def find_fe.simps)

subsection \<open>Feature names\<close>

text \<open>
  The decimal digits determine the number, so \<open>'%+d'\<close> gives different offsets different
  names; the names of the four kinds differ in their first letter, and none is \<open>unk\<close>.
\<close>

lemma digit_char_inj:
  assumes "d < 10" "e < 10" "digit_char d = digit_char e"
  shows "d = e"
proof -
  have "distinct ''0123456789''" by simp
  moreover have "d < length ''0123456789''" "e < length ''0123456789''" using assms by simp_all
  ultimately show ?thesis using assms(3) unfolding digit_char_def
    by (simp only: nth_eq_iff_index_eq)
qed

lemma digits_nonempty: "digits n \<noteq> []"
  by (subst digits.simps) simp

lemma digits_length_one: "length (digits n) = Suc 0 \<longleftrightarrow> n < 10"
proof (cases "n < 10")
  case True
  then show ?thesis by (subst digits.simps) simp
next
  case False
  have "digits (n div 10) \<noteq> []" by (rule digits_nonempty)
  then have "0 < length (digits (n div 10))" by simp
  with False show ?thesis by (subst digits.simps) simp
qed

lemma digits_inj: "digits n = digits m \<Longrightarrow> n = m"
proof (induction n arbitrary: m rule: digits.induct)
  case (1 n)
  show ?case
  proof (cases "n < 10")
    case small: True
    with "1.prems" have "length (digits m) = Suc 0" using digits_length_one [of n] by simp
    then have m: "m < 10" by (simp add: digits_length_one)
    from small m "1.prems" have "digit_char n = digit_char m"
      by (simp add: digits.simps [of n] digits.simps [of m])
    with small m show ?thesis by (rule digit_char_inj)
  next
    case big: False
    with "1.prems" have "length (digits m) \<noteq> Suc 0" using digits_length_one [of n] by simp
    then have m: "\<not> m < 10" by (simp add: digits_length_one)
    from big m "1.prems" have
      "digits (n div 10) @ [digit_char (n mod 10)] = digits (m div 10) @ [digit_char (m mod 10)]"
      by (simp add: digits.simps [of n] digits.simps [of m])
    then have a: "digits (n div 10) = digits (m div 10)" and b: "digit_char (n mod 10) = digit_char (m mod 10)"
      by simp_all
    from "1.IH" [OF big a] have "n div 10 = m div 10" .
    moreover from b have "n mod 10 = m mod 10" by (intro digit_char_inj) simp_all
    ultimately show ?thesis by (metis div_mult_mod_eq)
  qed
qed

lemma fmt_signed_inj: "fmt_signed r = fmt_signed r' \<Longrightarrow> r = r'"
  by (auto simp: fmt_signed_def split: if_splits dest!: digits_inj)

lemma fmt_feature_inj: "fmt_feature kind r = fmt_feature kind r' \<longleftrightarrow> r = r'"
  by (auto simp: fmt_feature_def dest: fmt_signed_inj)

lemma fmt_feature_not_unk:
  "fmt_feature ''TERM'' r \<noteq> ''unk''" "fmt_feature ''POS'' r \<noteq> ''unk''"
  "fmt_feature ''LEMMA'' r \<noteq> ''unk''" "fmt_feature ''GAZ'' r \<noteq> ''unk''"
  by (simp_all add: fmt_feature_def)

lemma fmt_feature_not_gaz:
  "fmt_feature ''TERM'' r \<noteq> fmt_feature ''GAZ'' r'" "fmt_feature ''POS'' r \<noteq> fmt_feature ''GAZ'' r'"
  "fmt_feature ''LEMMA'' r \<noteq> fmt_feature ''GAZ'' r'"
  by (simp_all add: fmt_feature_def)

lemma fmt_feature_examples:
  "fmt_feature ''TERM'' (- 12) = ''TERM-12''" "fmt_feature ''GAZ'' 0 = ''GAZ+0''"
  "fmt_feature ''POS'' 1 = ''POS+1''"
  by (simp_all add: fmt_feature_def fmt_signed_def digits.simps digit_char_def)

subsection \<open>One step of the window loop\<close>

lemma add_feature_to_snd:
  "snd (add_feature_to add_unknown name v st) =
     (snd st)\<lparr>vocabulary := (if add_unknown then insert v (vocabulary (snd st)) else vocabulary (snd st))\<rparr>"
  by (cases st) (auto simp: add_feature_to_def insert_absorb)

lemma add_feature_to_fst:
  "fst (add_feature_to add_unknown name v st) =
     (fst st)(name \<mapsto> (if add_unknown \<or> v \<in> vocabulary (snd st) then v else unk_feature (snd st)))"
  by (cases st) (auto simp: add_feature_to_def)

lemma fold_overwrite:
  "fold (\<lambda>feat smp. smp(k \<mapsto> feat)) feats smp = (if feats = [] then smp else smp(k \<mapsto> last feats))"
  by (induction feats arbitrary: smp) auto

lemma add_gazetteer_eq:
  "add_gazetteer gazetteer term rel smp =
     (case gazetteer term of
        None \<Rightarrow> smp
      | Some feats \<Rightarrow> if feats = [] then smp else smp(fmt_feature ''GAZ'' rel \<mapsto> last feats))"
  by (simp add: add_gazetteer_def fold_overwrite split: option.splits)

lemma window_step_snd:
  "snd (window_step add_unknown gazetteer tagged position i st) =
     (snd st)\<lparr>vocabulary := (if add_unknown then token_values (tagged ! i) \<union> vocabulary (snd st)
                              else vocabulary (snd st))\<rparr>"
  by (auto simp: window_step_def Let_def add_feature_to_snd token_values_def insert_commute)

lemma fold_window_step_snd:
  "snd (fold (window_step add_unknown gazetteer tagged position) rng st) =
     (snd st)\<lparr>vocabulary := (if add_unknown then (\<Union>i\<in>set rng. token_values (tagged ! i)) \<union> vocabulary (snd st)
                              else vocabulary (snd st))\<rparr>"
proof (induction rng arbitrary: st)
  case Nil
  then show ?case by simp
next
  case (Cons i rng)
  show ?case by (simp add: Cons.IH window_step_snd Un_assoc Un_commute Un_left_commute)
qed

text \<open>The sample after one step, key by key.\<close>

lemma window_step_fst_other:
  assumes "k \<noteq> fmt_feature ''TERM'' (int i - int position)"
    and "k \<noteq> fmt_feature ''POS'' (int i - int position)"
    and "k \<noteq> fmt_feature ''LEMMA'' (int i - int position)"
    and "k \<noteq> fmt_feature ''GAZ'' (int i - int position)"
  shows "fst (window_step add_unknown gazetteer tagged position i st) k = fst st k"
  using assms
  by (simp add: window_step_def Let_def add_gazetteer_eq add_feature_to_fst split: option.splits)

lemma window_step_fst_gaz:
  assumes "gazetteer (surface (tagged ! i)) = Some feats" and "feats \<noteq> []"
  shows "fst (window_step add_unknown gazetteer tagged position i st)
           (fmt_feature ''GAZ'' (int i - int position)) = Some (last feats)"
  using assms by (simp add: window_step_def Let_def add_gazetteer_eq)

lemma window_step_unk:
  "fst (window_step add_unknown gazetteer tagged position i st) ''unk'' = fst st ''unk''"
  by (rule window_step_fst_other) (simp_all add: fmt_feature_not_unk [symmetric])

lemma fold_window_step_unk:
  "fst (fold (window_step add_unknown gazetteer tagged position) rng st) ''unk'' = fst st ''unk''"
  by (induction rng arbitrary: st) (simp_all add: window_step_unk)

lemma fold_window_step_gaz_kept:
  assumes "i \<notin> set rng"
  shows "fst (fold (window_step add_unknown gazetteer tagged position) rng st)
           (fmt_feature ''GAZ'' (int i - int position))
         = fst st (fmt_feature ''GAZ'' (int i - int position))"
  using assms
proof (induction rng arbitrary: st)
  case Nil
  then show ?case by simp
next
  case (Cons a rng)
  then have "a \<noteq> i" "i \<notin> set rng" by auto
  then have "fst (window_step add_unknown gazetteer tagged position a st)
               (fmt_feature ''GAZ'' (int i - int position))
             = fst st (fmt_feature ''GAZ'' (int i - int position))"
    by (intro window_step_fst_other) (simp_all add: fmt_feature_not_gaz [symmetric] fmt_feature_inj)
  with Cons.IH [OF \<open>i \<notin> set rng\<close>] show ?case by simp
qed

lemma fold_window_step_gaz:
  assumes "i \<in> set rng" and "distinct rng"
    and "gazetteer (surface (tagged ! i)) = Some feats" and "feats \<noteq> []"
  shows "fst (fold (window_step add_unknown gazetteer tagged position) rng st)
           (fmt_feature ''GAZ'' (int i - int position)) = Some (last feats)"
  using assms(1,2)
proof (induction rng arbitrary: st)
  case Nil
  then show ?case by simp
next
  case (Cons a rng)
  show ?case
  proof (cases "a = i")
    case True
    with Cons.prems have "i \<notin> set rng" by simp
    with True assms(3,4) show ?thesis
      by (simp add: fold_window_step_gaz_kept window_step_fst_gaz)
  next
    case False
    with Cons.prems have "i \<in> set rng" "distinct rng" by simp_all
    then show ?thesis by (simp add: Cons.IH)
  qed
qed

text \<open>With \<open>add_unknown = False\<close> a step keeps \<open>frozen_ok\<close>.\<close>

lemma window_step_frozen:
  assumes "frozen_ok (vocabulary (snd st)) (unk_feature (snd st)) (fst st)"
  shows "frozen_ok (vocabulary (snd st)) (unk_feature (snd st))
           (fst (window_step False gazetteer tagged position i st))"
  using assms unfolding frozen_ok_def
  by (auto simp: window_step_def Let_def add_gazetteer_eq add_feature_to_fst add_feature_to_snd
           split: option.splits if_splits)

lemma fold_window_step_frozen:
  assumes "frozen_ok (vocabulary (snd st)) (unk_feature (snd st)) (fst st)"
  shows "frozen_ok (vocabulary (snd st)) (unk_feature (snd st))
           (fst (fold (window_step False gazetteer tagged position) rng st))"
  using assms
proof (induction rng arbitrary: st)
  case Nil
  then show ?case by simp
next
  case (Cons a rng)
  have "frozen_ok (vocabulary (snd (window_step False gazetteer tagged position a st)))
          (unk_feature (snd (window_step False gazetteer tagged position a st)))
          (fst (window_step False gazetteer tagged position a st))"
    using window_step_frozen [OF Cons.prems] by (simp add: window_step_snd)
  from Cons.IH [OF this] show ?case by (simp add: window_step_snd)
qed

subsection \<open>The loops over the window and over the positions\<close>

lemma window_range_bound: "i \<in> set (window_range width position n) \<Longrightarrow> i < n"
  by (auto simp: window_range_def)

lemma window_range_distinct: "distinct (window_range width position n)"
  by (simp add: window_range_def)

lemma window_range_nonneg:
  assumes "0 \<le> width" and "position < n"
  shows "window_range width position n \<noteq> []"
    and "last (window_range width position n) = nat (min (int position + width) (int n - 1))"
    and "position \<in> set (window_range width position n)"
  using assms by (auto simp: window_range_def min_def max_def)

lemma window_range_negative:
  assumes "width < 0"
  shows "window_range width position n = []"
  using assms by (auto simp: window_range_def min_def max_def)

lemma process_position_eq:
  "process_position add_unknown gazetteer tagged position (last_i, self) =
     (case (if window_range (window_width self) position (length tagged) = [] then last_i
            else Some (last (window_range (window_width self) position (length tagged)))) of
        None \<Rightarrow> Inl UnboundLocalError
      | Some i \<Rightarrow>
          Inr (Some i,
               self\<lparr>vocabulary :=
                      (if add_unknown
                       then (\<Union>i\<in>set (window_range (window_width self) position (length tagged)).
                               token_values (tagged ! i)) \<union> vocabulary self
                       else vocabulary self),
                    labels := insert (label_of (tagged ! i)) (labels self),
                    samples := samples self @
                      [(fst (fold (window_step add_unknown gazetteer tagged position)
                               (window_range (window_width self) position (length tagged))
                               ([''unk'' \<mapsto> unk_feature self], self)),
                        label_of (tagged ! i))]\<rparr>))"
  by (simp add: process_position_def Let_def fold_window_step_snd split: option.splits)

lemma process_positions_invariant:
  assumes "process_positions add_unknown gazetteer tagged ps (li, s) = Inr (li', s')"
    and "I s"
    and step: "\<And>p li s li' s'. p \<in> set ps \<Longrightarrow> I s \<Longrightarrow>
                 process_position add_unknown gazetteer tagged p (li, s) = Inr (li', s') \<Longrightarrow>
                 I s' \<and> (\<exists>smp. samples s' = samples s @ [smp] \<and> Q p smp)"
  shows "I s' \<and> (\<exists>new. samples s' = samples s @ new \<and> length new = length ps \<and>
                    (\<forall>k<length ps. Q (ps ! k) (new ! k)))"
  using assms
proof (induction ps arbitrary: li s)
  case Nil
  then show ?case by simp
next
  case (Cons p ps)
  from Cons.prems(1) obtain li1 s1 where
    one: "process_position add_unknown gazetteer tagged p (li, s) = Inr (li1, s1)"
    and rest: "process_positions add_unknown gazetteer tagged ps (li1, s1) = Inr (li', s')"
    by (auto split: sum.splits)
  from Cons.prems(3) [OF _ Cons.prems(2) one] obtain smp where
    s1: "I s1" "samples s1 = samples s @ [smp]" "Q p smp"
    by auto
  have "I s' \<and> (\<exists>new. samples s' = samples s1 @ new \<and> length new = length ps \<and>
                    (\<forall>k<length ps. Q (ps ! k) (new ! k)))"
  proof (rule Cons.IH [OF rest s1(1)])
    fix q s0 li0 li2 s2
    assume "q \<in> set ps" "I s0"
      "process_position add_unknown gazetteer tagged q (li0, s0) = Inr (li2, s2)"
    then show "I s2 \<and> (\<exists>smp. samples s2 = samples s0 @ [smp] \<and> Q q smp)"
      by (intro Cons.prems(3) [of q s0 li0 li2 s2]) simp_all
  qed
  then obtain new where
    n: "I s'" "samples s' = samples s1 @ new" "length new = length ps"
       "\<forall>k<length ps. Q (ps ! k) (new ! k)"
    by blast
  have "\<forall>k<length (p # ps). Q ((p # ps) ! k) ((smp # new) ! k)"
  proof (intro allI impI)
    fix k assume "k < length (p # ps)"
    with s1(3) n(4) show "Q ((p # ps) ! k) ((smp # new) ! k)" by (cases k) simp_all
  qed
  with n s1(2) show ?case by (intro conjI exI [of _ "smp # new"]) simp_all
qed

lemma process_positions_after_first:
  "\<exists>st'. process_positions add_unknown gazetteer tagged ps (Some i, s) = Inr st'"
proof (induction ps arbitrary: i s)
  case Nil
  then show ?case by simp
next
  case (Cons p ps)
  then show ?case by (simp add: process_position_eq)
qed

lemma process_positions_vocabulary:
  assumes "process_positions add_unknown gazetteer tagged ps (li, s) = Inr (li', s')"
  shows "window_width s' = window_width s \<and> unk_feature s' = unk_feature s \<and>
         vocabulary s' =
           (if add_unknown
            then (\<Union>p\<in>set ps. \<Union>i\<in>set (window_range (window_width s) p (length tagged)).
                    token_values (tagged ! i)) \<union> vocabulary s
            else vocabulary s)"
  using assms
proof (induction ps arbitrary: li s)
  case Nil
  then show ?case by simp
next
  case (Cons p ps)
  from Cons.prems obtain li1 s1 where
    one: "process_position add_unknown gazetteer tagged p (li, s) = Inr (li1, s1)"
    and rest: "process_positions add_unknown gazetteer tagged ps (li1, s1) = Inr (li', s')"
    by (auto split: sum.splits)
  from one have s1: "window_width s1 = window_width s" "unk_feature s1 = unk_feature s"
    "vocabulary s1 = (if add_unknown
        then (\<Union>i\<in>set (window_range (window_width s) p (length tagged)). token_values (tagged ! i)) \<union> vocabulary s
        else vocabulary s)"
    by (auto simp: process_position_eq split: option.splits if_splits)
  from Cons.IH [OF rest] s1 show ?case by auto
qed

lemma process_sentence_Inr:
  assumes "process_sentence self sentence fes add_unknown gazetteer = Inr self'"
  obtains tagged li' where "sentence_to_tokens self sentence fes = Inr tagged"
    and "process_positions add_unknown gazetteer tagged [0 ..< length tagged] (None, self) = Inr (li', self')"
  using assms by (auto simp: process_sentence_def split: sum.splits)

lemma process_positions_total:
  assumes "0 \<le> window_width s" and "\<forall>p\<in>set ps. p < length tagged"
  shows "\<exists>st'. process_positions add_unknown gazetteer tagged ps (li, s) = Inr st'"
proof (cases ps)
  case Nil
  then show ?thesis by simp
next
  case (Cons p ps')
  with assms have "window_range (window_width s) p (length tagged) \<noteq> []"
    by (simp add: window_range_nonneg(1))
  with Cons show ?thesis
    using process_positions_after_first [of add_unknown gazetteer tagged ps']
    by (simp add: process_position_eq)
qed

lemma process_positions_negative:
  assumes "window_width s < 0"
  shows "process_positions add_unknown gazetteer tagged (p # ps) (None, s) = Inl UnboundLocalError"
  using assms by (simp add: process_position_eq window_range_negative)

lemma process_sentence_succeeds:
  assumes "sentence_to_tokens self sentence fes = Inr tagged" and "0 \<le> window_width self"
  shows "\<exists>self'. process_sentence self sentence fes add_unknown gazetteer = Inr self'"
proof -
  from process_positions_total [OF assms(2), of "[0 ..< length tagged]" tagged add_unknown gazetteer None]
  obtain st' where "process_positions add_unknown gazetteer tagged [0 ..< length tagged] (None, self) = Inr st'"
    by auto
  with assms(1) show ?thesis by (simp add: process_sentence_def)
qed

lemma process_sentence_negative_width:
  assumes "sentence_to_tokens self sentence fes = Inr tagged" and "tagged \<noteq> []"
    and "window_width self < 0"
  shows "process_sentence self sentence fes add_unknown gazetteer = Inl UnboundLocalError"
proof -
  from assms(2) have "[0 ..< length tagged] = 0 # [1 ..< length tagged]"
    by (simp add: upt_conv_Cons)
  with assms(1,3) show ?thesis
    using process_positions_negative [of self add_unknown gazetteer tagged 0 "[1 ..< length tagged]"]
    by (simp add: process_sentence_def del: process_positions.simps)
qed

subsection \<open>Samples\<close>

text \<open>Two runs on the stand-in tagger, used below.\<close>

lemma stub_extractor_fields:
  "the_tagger (init (\<lambda>lang. stub_tagger) lang0 width collapse) = stub_tagger"
  "window_width (init (\<lambda>lang. stub_tagger) lang0 width collapse) = width"
  "unk_feature (init (\<lambda>lang. stub_tagger) lang0 width collapse) = ''UNK''"
  "samples (init (\<lambda>lang. stub_tagger) lang0 width collapse) = []"
  "vocabulary (init (\<lambda>lang. stub_tagger) lang0 width collapse) = {}"
  "collapse_fes (init (\<lambda>lang. stub_tagger) lang0 width collapse) = collapse"
  by (simp_all add: init_def start_def)

lemma victim_tokens:
  "sentence_to_tokens (init (\<lambda>lang. stub_tagger) ''en'' 1 True) ''John Smith killed the mayor''
     [(''Victim'', Some ''the mayor'')] =
   Inr [\<lparr>surface = ''John'', pos_tag = ''NN'', lemma_form = ''john'', fe_label = None\<rparr>,
        \<lparr>surface = ''Smith'', pos_tag = ''NN'', lemma_form = ''smith'', fe_label = None\<rparr>,
        \<lparr>surface = ''killed'', pos_tag = ''VBD'', lemma_form = ''killed'', fe_label = None\<rparr>,
        \<lparr>surface = ''the mayor'', pos_tag = ''ENT'', lemma_form = ''the mayor'', fe_label = Some ''Victim''\<rparr>]"
  by (simp add: sentence_to_tokens_def init_def start_def apply_fe_def stub_tagger_def
        lower_def lower_char_def raw_token_def find_fe.simps)

lemma rome_tokens:
  "sentence_to_tokens ((init (\<lambda>lang. stub_tagger) ''en'' 1 True)\<lparr>vocabulary := V\<rparr>) ''Rome wins'' [] =
   Inr [\<lparr>surface = ''Rome'', pos_tag = ''NN'', lemma_form = ''rome'', fe_label = None\<rparr>,
        \<lparr>surface = ''wins'', pos_tag = ''NN'', lemma_form = ''wins'', fe_label = None\<rparr>]"
  by (simp add: sentence_to_tokens_def init_def start_def stub_tagger_def
        lower_def lower_char_def raw_token_def)

text \<open>
  Claim C7. Every sample that \<open>process_sentence\<close> appends has the feature \<open>unk\<close> with
  the unknown sentinel as its value, for every sentence, FE map, window width and
  gazetteer and in both modes: one sample per token, and no feature written by the
  window loop has the name \<open>unk\<close>.
\<close>

theorem every_sample_has_sentinel:
  assumes "process_sentence self sentence fes add_unknown gazetteer = Inr self'"
  shows "\<exists>tagged new. sentence_to_tokens self sentence fes = Inr tagged \<and>
           samples self' = samples self @ new \<and> length new = length tagged \<and>
           unk_feature self' = unk_feature self \<and>
           (\<forall>smp\<in>set new. fst smp ''unk'' = Some (unk_feature self))"
proof -
  from assms obtain tagged li' where
    al: "sentence_to_tokens self sentence fes = Inr tagged"
    and run: "process_positions add_unknown gazetteer tagged [0 ..< length tagged] (None, self) = Inr (li', self')"
    by (rule process_sentence_Inr)
  have "unk_feature self' = unk_feature self \<and>
        (\<exists>new. samples self' = samples self @ new \<and> length new = length [0 ..< length tagged] \<and>
               (\<forall>k<length [0 ..< length tagged].
                   fst (new ! k) ''unk'' = Some (unk_feature self)))"
  proof (rule process_positions_invariant [OF run, where I = "\<lambda>s. unk_feature s = unk_feature self"
        and Q = "\<lambda>p smp. fst smp ''unk'' = Some (unk_feature self)"])
    show "unk_feature self = unk_feature self" ..
  next
    fix p li s li2 s2
    assume "unk_feature s = unk_feature self"
      and "process_position add_unknown gazetteer tagged p (li, s) = Inr (li2, s2)"
    then show "unk_feature s2 = unk_feature self \<and>
               (\<exists>smp. samples s2 = samples s @ [smp] \<and> fst smp ''unk'' = Some (unk_feature self))"
      by (auto simp: process_position_eq fold_window_step_unk split: option.splits)
  qed
  then obtain new where
    n: "unk_feature self' = unk_feature self" "samples self' = samples self @ new"
       "length new = length tagged" "\<forall>k<length tagged. fst (new ! k) ''unk'' = Some (unk_feature self)"
    by auto
  have "\<forall>smp\<in>set new. fst smp ''unk'' = Some (unk_feature self)"
  proof
    fix smp assume "smp \<in> set new"
    then obtain k where "k < length new" "new ! k = smp" by (auto simp: in_set_conv_nth)
    with n(3,4) show "fst smp ''unk'' = Some (unk_feature self)" by auto
  qed
  with al n show ?thesis by blast
qed

theorem every_sample_has_sentinel_witness:
  "\<exists>self'. process_sentence (init (\<lambda>lang. stub_tagger) ''en'' 1 True) ''John Smith killed the mayor''
              [(''Victim'', Some ''the mayor'')] True Map.empty = Inr self' \<and>
     length (samples self') = 4 \<and>
     list_all (\<lambda>smp. fst smp ''unk'' = Some ''UNK'') (samples self')"
proof -
  let ?S = "init (\<lambda>lang. stub_tagger) ''en'' 1 True"
  have "0 \<le> window_width ?S" by (simp add: stub_extractor_fields)
  from process_sentence_succeeds [OF victim_tokens this, of True Map.empty]
  obtain self' where run: "process_sentence ?S ''John Smith killed the mayor''
              [(''Victim'', Some ''the mayor'')] True Map.empty = Inr self'" ..
  from every_sample_has_sentinel [OF run] obtain tagged new where
    "sentence_to_tokens ?S ''John Smith killed the mayor'' [(''Victim'', Some ''the mayor'')] = Inr tagged"
    "samples self' = samples ?S @ new" "length new = length tagged"
    "\<forall>smp\<in>set new. fst smp ''unk'' = Some (unk_feature ?S)"
    by blast
  then have "length (samples self') = 4 \<and> list_all (\<lambda>smp. fst smp ''unk'' = Some ''UNK'') (samples self')"
    by (auto simp: victim_tokens stub_extractor_fields list_all_iff)
  with run show ?thesis by blast
qed

text \<open>
  Claim C1. When \<open>process_sentence\<close> returns, the label of the sample of position \<open>p\<close>
  is the label of the token at index \<open>min(p + window_width, len(tagged) - 1)\<close>, the last
  index of the window loop: its FE if it has one, \<open>O\<close> otherwise. (It returns on a
  non-empty token sequence only for a window width that is not negative.)
\<close>

theorem label_from_right_edge:
  assumes "process_sentence self sentence fes add_unknown gazetteer = Inr self'"
    and "sentence_to_tokens self sentence fes = Inr tagged"
    and "p < length tagged"
  shows "0 \<le> window_width self \<and>
         snd (samples self' ! (length (samples self) + p)) =
           label_of (tagged ! nat (min (int p + window_width self) (int (length tagged) - 1)))"
proof -
  from assms(1,2) obtain li' where
    run: "process_positions add_unknown gazetteer tagged [0 ..< length tagged] (None, self) = Inr (li', self')"
    by (auto elim: process_sentence_Inr)
  from assms(3) have "tagged \<noteq> []" by auto
  with assms(1,2) have w: "0 \<le> window_width self"
    using process_sentence_negative_width [of self sentence fes tagged add_unknown gazetteer]
    by (cases "window_width self < 0") simp_all
  let ?W = "window_width self"
  let ?lab = "\<lambda>q. label_of (tagged ! nat (min (int q + ?W) (int (length tagged) - 1)))"
  have "window_width self' = ?W \<and>
        (\<exists>new. samples self' = samples self @ new \<and> length new = length [0 ..< length tagged] \<and>
               (\<forall>k<length [0 ..< length tagged]. snd (new ! k) = ?lab ([0 ..< length tagged] ! k)))"
  proof (rule process_positions_invariant [OF run, where I = "\<lambda>s. window_width s = ?W"
        and Q = "\<lambda>q smp. snd smp = ?lab q"])
    show "window_width self = ?W" ..
  next
    fix q li s li2 s2
    assume q: "q \<in> set [0 ..< length tagged]" and ws: "window_width s = ?W"
      and one: "process_position add_unknown gazetteer tagged q (li, s) = Inr (li2, s2)"
    from q have "q < length tagged" by simp
    with w ws have "window_range (window_width s) q (length tagged) \<noteq> []"
      "last (window_range (window_width s) q (length tagged)) = nat (min (int q + ?W) (int (length tagged) - 1))"
      by (simp_all add: window_range_nonneg)
    with one ws show "window_width s2 = ?W \<and> (\<exists>smp. samples s2 = samples s @ [smp] \<and> snd smp = ?lab q)"
      by (auto simp: process_position_eq)
  qed
  then obtain new where
    n: "samples self' = samples self @ new" "length new = length tagged"
       "\<forall>k<length tagged. snd (new ! k) = ?lab ([0 ..< length tagged] ! k)"
    by auto
  from n(3) assms(3) have "snd (new ! p) = ?lab p" by simp
  with n(1) w show ?thesis by (simp add: nth_append)
qed

text \<open>
  In the run above the sample of position 2 (\<open>killed\<close>, a token without FE) has the
  label \<open>Victim\<close> of the token at index 3.
\<close>

theorem label_from_right_edge_witness:
  "\<exists>self'. process_sentence (init (\<lambda>lang. stub_tagger) ''en'' 1 True) ''John Smith killed the mayor''
              [(''Victim'', Some ''the mayor'')] True Map.empty = Inr self' \<and>
     snd (samples self' ! 2) = ''Victim'' \<and> snd (samples self' ! 0) = ''O''"
proof -
  let ?S = "init (\<lambda>lang. stub_tagger) ''en'' 1 True"
  have "0 \<le> window_width ?S" by (simp add: stub_extractor_fields)
  from process_sentence_succeeds [OF victim_tokens this, of True Map.empty]
  obtain self' where run: "process_sentence ?S ''John Smith killed the mayor''
              [(''Victim'', Some ''the mayor'')] True Map.empty = Inr self'" ..
  have "snd (samples self' ! 2) = ''Victim''"
    using label_from_right_edge [OF run victim_tokens, of 2]
    by (simp add: stub_extractor_fields label_of_def numeral_2_eq_2)
  moreover have "snd (samples self' ! 0) = ''O''"
    using label_from_right_edge [OF run victim_tokens, of 0]
    by (simp add: stub_extractor_fields label_of_def)
  ultimately show ?thesis using run by blast
qed

subsection \<open>The vocabulary policy and the gazetteer\<close>

lemma frozen_ok_initial: "frozen_ok V U [''unk'' \<mapsto> U]"
  by (simp add: frozen_ok_def)

lemma process_position_frozen:
  assumes "process_position False gazetteer tagged p (li, s) = Inr (li2, s2)"
  shows "vocabulary s2 = vocabulary s \<and> unk_feature s2 = unk_feature s \<and>
         (\<exists>smp. samples s2 = samples s @ [smp] \<and>
                frozen_ok (vocabulary s) (unk_feature s) (fst smp))"
proof -
  have "frozen_ok (vocabulary s) (unk_feature s)
          (fst (fold (window_step False gazetteer tagged p)
                  (window_range (window_width s) p (length tagged))
                  ([''unk'' \<mapsto> unk_feature s], s)))"
    using fold_window_step_frozen [of "([''unk'' \<mapsto> unk_feature s], s)" gazetteer tagged p]
    by (simp add: frozen_ok_initial)
  with assms show ?thesis
    by (auto simp: process_position_eq split: option.splits)
qed

text \<open>
  Claim C2, as the code has it. With \<open>add_unknown = False\<close> the vocabulary is left as
  it is, and in every sample that \<open>process_sentence\<close> appends every feature whose name is
  not a \<open>GAZ\<close> name has a value that is in the vocabulary or is the unknown sentinel.
  (\<open>GAZ\<close> features are written without \<open>add_feature_to\<close>: claim C10.)
\<close>

theorem frozen_mode_features:
  assumes "process_sentence self sentence fes False gazetteer = Inr self'"
  shows "vocabulary self' = vocabulary self \<and> unk_feature self' = unk_feature self \<and>
         (\<exists>new. samples self' = samples self @ new \<and>
            (\<forall>smp\<in>set new. \<forall>name v. fst smp name = Some v \<longrightarrow>
                (\<exists>rel. name = fmt_feature ''GAZ'' rel) \<or> v \<in> vocabulary self' \<or> v = unk_feature self'))"
proof -
  from assms obtain tagged li' where
    run: "process_positions False gazetteer tagged [0 ..< length tagged] (None, self) = Inr (li', self')"
    by (rule process_sentence_Inr)
  let ?V = "vocabulary self" and ?U = "unk_feature self"
  have "(vocabulary self' = ?V \<and> unk_feature self' = ?U) \<and>
        (\<exists>new. samples self' = samples self @ new \<and> length new = length [0 ..< length tagged] \<and>
               (\<forall>k<length [0 ..< length tagged]. frozen_ok ?V ?U (fst (new ! k))))"
  proof (rule process_positions_invariant [OF run,
        where I = "\<lambda>s. vocabulary s = ?V \<and> unk_feature s = ?U"
        and Q = "\<lambda>p smp. frozen_ok ?V ?U (fst smp)"])
    show "vocabulary self = ?V \<and> unk_feature self = ?U" by simp
  next
    fix p li s li2 s2
    assume "vocabulary s = ?V \<and> unk_feature s = ?U"
      and "process_position False gazetteer tagged p (li, s) = Inr (li2, s2)"
    then show "(vocabulary s2 = ?V \<and> unk_feature s2 = ?U) \<and>
               (\<exists>smp. samples s2 = samples s @ [smp] \<and> frozen_ok ?V ?U (fst smp))"
      using process_position_frozen [of gazetteer tagged p li s li2 s2] by auto
  qed
  then obtain new where
    n: "vocabulary self' = ?V" "unk_feature self' = ?U" "samples self' = samples self @ new"
       "length new = length tagged" "\<forall>k<length tagged. frozen_ok ?V ?U (fst (new ! k))"
    by auto
  have "\<forall>smp\<in>set new. \<forall>name v. fst smp name = Some v \<longrightarrow>
          (\<exists>rel. name = fmt_feature ''GAZ'' rel) \<or> v \<in> vocabulary self' \<or> v = unk_feature self'"
  proof
    fix smp assume "smp \<in> set new"
    then obtain k where "k < length new" "new ! k = smp" by (auto simp: in_set_conv_nth)
    with n(4,5) have "frozen_ok ?V ?U (fst smp)" by auto
    with n(1,2) show "\<forall>name v. fst smp name = Some v \<longrightarrow>
          (\<exists>rel. name = fmt_feature ''GAZ'' rel) \<or> v \<in> vocabulary self' \<or> v = unk_feature self'"
      by (simp add: frozen_ok_def)
  qed
  with n show ?thesis by blast
qed

theorem frozen_mode_features_witness:
  "\<exists>self'. process_sentence ((init (\<lambda>lang. stub_tagger) ''en'' 1 True)\<lparr>vocabulary := {''Rome''}\<rparr>)
              ''Rome wins'' [] False [''Rome'' \<mapsto> [''CITY'']] = Inr self' \<and>
     vocabulary self' = {''Rome''} \<and>
     list_all (\<lambda>smp. \<forall>name v. fst smp name = Some v \<longrightarrow>
                 (\<exists>rel. name = fmt_feature ''GAZ'' rel) \<or> v = ''Rome'' \<or> v = ''UNK'') (samples self')"
proof -
  let ?S = "(init (\<lambda>lang. stub_tagger) ''en'' 1 True)\<lparr>vocabulary := {''Rome''}\<rparr>"
  have "0 \<le> window_width ?S" by (simp add: stub_extractor_fields)
  from process_sentence_succeeds [OF rome_tokens this, of False "[''Rome'' \<mapsto> [''CITY'']]"]
  obtain self' where run: "process_sentence ?S ''Rome wins'' [] False [''Rome'' \<mapsto> [''CITY'']] = Inr self'" ..
  from frozen_mode_features [OF run]
  have "vocabulary self' = {''Rome''} \<and>
     list_all (\<lambda>smp. \<forall>name v. fst smp name = Some v \<longrightarrow>
                 (\<exists>rel. name = fmt_feature ''GAZ'' rel) \<or> v = ''Rome'' \<or> v = ''UNK'') (samples self')"
    by (auto simp: stub_extractor_fields list_all_iff)
  with run show ?thesis by blast
qed

text \<open>
  Claim C2 as stated fails for \<open>GAZ\<close> features: with an empty vocabulary, the sentence
  \<open>Rome\<close> and the gazetteer \<open>{'Rome': ['CITY']}\<close>, the sample has \<open>GAZ+0 = CITY\<close>, a value
  that is neither in the vocabulary nor the sentinel.
\<close>

theorem gazetteer_value_not_in_vocabulary:
  "\<not> isl (process_sentence (init (\<lambda>lang. stub_tagger) ''en'' 1 True) ''Rome'' [] False
            [''Rome'' \<mapsto> [''CITY'']]) \<and>
   fst (samples (projr (process_sentence (init (\<lambda>lang. stub_tagger) ''en'' 1 True) ''Rome'' [] False
                          [''Rome'' \<mapsto> [''CITY'']])) ! 0) ''GAZ+0'' = Some ''CITY'' \<and>
   ''CITY'' \<notin> vocabulary (projr (process_sentence (init (\<lambda>lang. stub_tagger) ''en'' 1 True) ''Rome'' []
                                   False [''Rome'' \<mapsto> [''CITY'']])) \<and>
   ''CITY'' \<noteq> unk_feature (projr (process_sentence (init (\<lambda>lang. stub_tagger) ''en'' 1 True) ''Rome'' []
                                     False [''Rome'' \<mapsto> [''CITY'']]))"
  by (simp add: process_sentence_def sentence_to_tokens_def init_def start_def stub_tagger_def raw_token_def
      lower_def lower_char_def process_position_def window_range_def window_step_def add_feature_to_def
      add_gazetteer_def fmt_feature_def fmt_signed_def digits.simps digit_char_def label_of_def Let_def)

lemma window_tokens_union:
  assumes "0 \<le> width \<or> tagged = []"
  shows "(\<Union>p\<in>set [0 ..< length tagged]. \<Union>i\<in>set (window_range width p (length tagged)).
            token_values (tagged ! i)) = (\<Union>t\<in>set tagged. token_values t)"
proof (intro equalityI subsetI)
  fix x assume "x \<in> (\<Union>p\<in>set [0 ..< length tagged]. \<Union>i\<in>set (window_range width p (length tagged)).
            token_values (tagged ! i))"
  then obtain p i where "i \<in> set (window_range width p (length tagged))" "x \<in> token_values (tagged ! i)"
    by auto
  then show "x \<in> (\<Union>t\<in>set tagged. token_values t)"
    using window_range_bound [of i width p "length tagged"] by (auto intro: nth_mem)
next
  fix x assume "x \<in> (\<Union>t\<in>set tagged. token_values t)"
  then obtain p where p: "p < length tagged" "x \<in> token_values (tagged ! p)"
    by (auto simp: in_set_conv_nth)
  with assms have "0 \<le> width" by auto
  with p have "p \<in> set (window_range width p (length tagged))"
    by (simp add: window_range_nonneg(3))
  with p show "x \<in> (\<Union>p\<in>set [0 ..< length tagged]. \<Union>i\<in>set (window_range width p (length tagged)).
            token_values (tagged ! i))"
    by auto
qed

lemma process_position_gaz:
  assumes "process_position add_unknown gazetteer tagged p (li, s) = Inr (li2, s2)"
  shows "window_width s2 = window_width s \<and>
         (\<exists>smp. samples s2 = samples s @ [smp] \<and>
            (\<forall>i feats. i \<in> set (window_range (window_width s) p (length tagged)) \<and>
                gazetteer (surface (tagged ! i)) = Some feats \<and> feats \<noteq> [] \<longrightarrow>
                fst smp (fmt_feature ''GAZ'' (int i - int p)) = Some (last feats)))"
  using assms
  by (auto simp: process_position_eq fold_window_step_gaz window_range_distinct split: option.splits)

text \<open>
  Claim C10. In both modes, for a token in the window of position \<open>p\<close> whose surface
  form is a key of the gazetteer with a non-empty list, the sample of \<open>p\<close> has the
  \<open>GAZ\<close> feature of that offset set to the last value of the list, as it is. The
  vocabulary after the call is the one before it, with the surface forms, tags and lemmas
  of the tokens added when \<open>add_unknown\<close> holds: no value enters it from the gazetteer.
\<close>

theorem gazetteer_bypasses_vocabulary:
  assumes "process_sentence self sentence fes add_unknown gazetteer = Inr self'"
    and "sentence_to_tokens self sentence fes = Inr tagged"
  shows "(\<forall>p i feats. p < length tagged \<and>
            i \<in> set (window_range (window_width self) p (length tagged)) \<and>
            gazetteer (surface (tagged ! i)) = Some feats \<and> feats \<noteq> [] \<longrightarrow>
            fst (samples self' ! (length (samples self) + p)) (fmt_feature ''GAZ'' (int i - int p))
              = Some (last feats)) \<and>
         vocabulary self' =
           (if add_unknown then vocabulary self \<union> (\<Union>t\<in>set tagged. token_values t)
            else vocabulary self)"
proof -
  from assms obtain li' where
    run: "process_positions add_unknown gazetteer tagged [0 ..< length tagged] (None, self) = Inr (li', self')"
    by (auto elim: process_sentence_Inr)
  let ?W = "window_width self" and ?n = "length tagged"
  let ?Q = "\<lambda>p smp. \<forall>i feats. i \<in> set (window_range ?W p ?n) \<and>
                gazetteer (surface (tagged ! i)) = Some feats \<and> feats \<noteq> [] \<longrightarrow>
                fst smp (fmt_feature ''GAZ'' (int i - int p)) = Some (last feats)"
  have "window_width self' = ?W \<and>
        (\<exists>new. samples self' = samples self @ new \<and> length new = length [0 ..< ?n] \<and>
               (\<forall>k<length [0 ..< ?n]. ?Q ([0 ..< ?n] ! k) (new ! k)))"
  proof (rule process_positions_invariant [OF run, where I = "\<lambda>s. window_width s = ?W" and Q = ?Q])
    show "window_width self = ?W" ..
  next
    fix p li s li2 s2
    assume "window_width s = ?W"
      and "process_position add_unknown gazetteer tagged p (li, s) = Inr (li2, s2)"
    then show "window_width s2 = ?W \<and> (\<exists>smp. samples s2 = samples s @ [smp] \<and> ?Q p smp)"
      using process_position_gaz [of add_unknown gazetteer tagged p li s li2 s2] by auto
  qed
  then obtain new where
    n: "samples self' = samples self @ new" "length new = ?n" "\<forall>k<?n. ?Q ([0 ..< ?n] ! k) (new ! k)"
    by auto
  have gaz: "\<forall>p i feats. p < ?n \<and> i \<in> set (window_range ?W p ?n) \<and>
            gazetteer (surface (tagged ! i)) = Some feats \<and> feats \<noteq> [] \<longrightarrow>
            fst (samples self' ! (length (samples self) + p)) (fmt_feature ''GAZ'' (int i - int p))
              = Some (last feats)"
  proof (intro allI impI)
    fix p i feats
    assume h: "p < ?n \<and> i \<in> set (window_range ?W p ?n) \<and>
            gazetteer (surface (tagged ! i)) = Some feats \<and> feats \<noteq> []"
    with n(3) have "?Q p (new ! p)" by (metis nth_upt add_0)
    with h have "fst (new ! p) (fmt_feature ''GAZ'' (int i - int p)) = Some (last feats)" by blast
    with n(1) show "fst (samples self' ! (length (samples self) + p)) (fmt_feature ''GAZ'' (int i - int p))
              = Some (last feats)"
      by (simp add: nth_append)
  qed
  have w: "0 \<le> ?W \<or> tagged = []"
    using assms process_sentence_negative_width [of self sentence fes tagged add_unknown gazetteer]
    by (cases "?W < 0") auto
  from process_positions_vocabulary [OF run] window_tokens_union [OF w]
  have "vocabulary self' =
           (if add_unknown then vocabulary self \<union> (\<Union>t\<in>set tagged. token_values t)
            else vocabulary self)"
    by (simp add: Un_commute)
  with gaz show ?thesis by blast
qed

theorem gazetteer_bypasses_vocabulary_witness:
  "\<exists>self'. process_sentence (init (\<lambda>lang. stub_tagger) ''en'' 1 True) ''Rome wins'' [] True
              [''Rome'' \<mapsto> [''PLACE'', ''CITY'']] = Inr self' \<and>
     fst (samples self' ! 1) ''GAZ-1'' = Some ''CITY'' \<and>
     fst (samples self' ! 0) ''GAZ+0'' = Some ''CITY'' \<and>
     vocabulary self' = {''Rome'', ''NN'', ''rome'', ''wins''}"
proof -
  let ?S = "init (\<lambda>lang. stub_tagger) ''en'' 1 True"
  let ?G = "[''Rome'' \<mapsto> [''PLACE'', ''CITY'']]"
  have al: "sentence_to_tokens ?S ''Rome wins'' [] =
     Inr [\<lparr>surface = ''Rome'', pos_tag = ''NN'', lemma_form = ''rome'', fe_label = None\<rparr>,
          \<lparr>surface = ''wins'', pos_tag = ''NN'', lemma_form = ''wins'', fe_label = None\<rparr>]"
    using rome_tokens [of "{}"] by (simp add: init_def start_def)
  have "0 \<le> window_width ?S" by (simp add: stub_extractor_fields)
  from process_sentence_succeeds [OF al this, of True ?G]
  obtain self' where run: "process_sentence ?S ''Rome wins'' [] True ?G = Inr self'" ..
  note main = gazetteer_bypasses_vocabulary [OF run al]
  have r: "window_range 1 (Suc 0) (Suc (Suc 0)) = [0, 1]" "window_range 1 0 (Suc (Suc 0)) = [0, 1]"
    by (simp_all add: window_range_def upt_conv_Cons)
  note gaz = main [THEN conjunct1, rule_format]
  have "fst (samples self' ! (length (samples ?S) + 1)) (fmt_feature ''GAZ'' (int 0 - int 1))
      = Some (last [''PLACE'', ''CITY''])"
    by (rule gaz) (simp add: stub_extractor_fields r)
  then have a: "fst (samples self' ! 1) ''GAZ-1'' = Some ''CITY''"
    by (simp add: stub_extractor_fields fmt_feature_def fmt_signed_def digits.simps digit_char_def)
  have "fst (samples self' ! (length (samples ?S) + 0)) (fmt_feature ''GAZ'' (int 0 - int 0))
      = Some (last [''PLACE'', ''CITY''])"
    by (rule gaz) (simp add: stub_extractor_fields r)
  then have b: "fst (samples self' ! 0) ''GAZ+0'' = Some ''CITY''"
    by (simp add: stub_extractor_fields fmt_feature_def fmt_signed_def digits.simps digit_char_def)
  from main [THEN conjunct2] have "vocabulary self' = {''Rome'', ''NN'', ''rome'', ''wins''}"
    by (auto simp: stub_extractor_fields token_values_def)
  with a b run show ?thesis by blast
qed

end
